theory Spec2Isabelle
  imports Main "HOL-Library.AList"
begin

section \<open>The session registry of the HTTP transport manager\<close>

text \<open>
  The development embeds the session-management core of \<^verbatim>\<open>SingleSessionHTTPServer\<close>:
  the four registry tables, \<^verbatim>\<open>removeSession\<close>, \<^verbatim>\<open>cleanupExpiredSessions\<close>,
  \<^verbatim>\<open>getSessionMetrics\<close>, \<^verbatim>\<open>switchSessionContext\<close> with \<^verbatim>\<open>performContextSwitch\<close>,
  and \<^verbatim>\<open>handleRequest\<close>.

  Calls that leave the class (the MCP SDK transport, the documentation server, \<^verbatim>\<open>uuidv4\<close>,
  the SHA-256 digest, the clock) are not part of the program text; their results enter
  the model as arguments supplied by the environment.
\<close>

subsection \<open>JavaScript objects used as dictionaries\<close>

text \<open>
  \<^verbatim>\<open>transports\<close>, \<^verbatim>\<open>servers\<close>, \<^verbatim>\<open>sessionMetadata\<close> and \<^verbatim>\<open>sessionContexts\<close> are object
  literals \<^verbatim>\<open>{}\<close> indexed by the session id. An object is modelled by its own enumerable
  properties in insertion order. A read \<^verbatim>\<open>obj[k]\<close> of a key that is not an own property
  continues along the prototype chain, so the property names of \<^verbatim>\<open>Object.prototype\<close>
  yield a (truthy) built-in value instead of \<^verbatim>\<open>undefined\<close>.
\<close>

type_synonym 'v js_object = "(string \<times> 'v) list"

definition object_prototype_keys :: "string list" where
  "object_prototype_keys =
     [''constructor'', ''__defineGetter__'', ''__defineSetter__'', ''hasOwnProperty'',
      ''__lookupGetter__'', ''__lookupSetter__'', ''isPrototypeOf'',
      ''propertyIsEnumerable'', ''toString'', ''valueOf'', ''__proto__'',
      ''toLocaleString'']"

datatype 'v js_lookup = Own 'v | Inherited | Absent

definition js_get :: "'v js_object \<Rightarrow> string \<Rightarrow> 'v js_lookup" where
  "js_get obj k =
     (case map_of obj k of
        Some v \<Rightarrow> Own v
      | None \<Rightarrow> if k \<in> set object_prototype_keys then Inherited else Absent)"

text \<open>
  An assignment \<^verbatim>\<open>obj[k] = v\<close> creates or overwrites an own property, except under the
  key \<^verbatim>\<open>__proto__\<close>, where it runs the prototype setter and replaces the prototype of
  \<^verbatim>\<open>obj\<close>. The model does not follow the program past such an assignment: the result
  \<open>None\<close> says that the step leaves the modelled behaviour, and nothing is claimed about it.
\<close>

definition js_set :: "'v js_object \<Rightarrow> string \<Rightarrow> 'v \<Rightarrow> 'v js_object option" where
  "js_set obj k v = (if k = ''__proto__'' then None else Some (AList.update k v obj))"

definition js_delete :: "'v js_object \<Rightarrow> string \<Rightarrow> 'v js_object" where
  "js_delete obj k = AList.delete k obj"

definition js_keys :: "'v js_object \<Rightarrow> string list" where
  "js_keys obj = map fst obj"

subsection \<open>Data\<close>

text \<open>
  An instance context is a JavaScript object built by the caller. It is modelled by its
  properties that have a defined value, in the object's own key order; the values are
  strings (\<^verbatim>\<open>n8nApiUrl\<close>, \<^verbatim>\<open>n8nApiKey\<close>, \<^verbatim>\<open>instanceId\<close>, \<^verbatim>\<open>sessionId\<close>) or
  nested objects (\<^verbatim>\<open>metadata\<close>). The same type describes the JSON document that
  \<^verbatim>\<open>JSON.stringify\<close> writes: it lists exactly these properties in exactly this order.
\<close>

datatype json = JString string | JObject "(string \<times> json) list"

type_synonym instance_context = "(string \<times> json) list"

definition stringProperty :: "instance_context \<Rightarrow> string \<Rightarrow> string option" where
  "stringProperty c k =
     (case map_of c k of
        Some (JString x) \<Rightarrow> Some x
      | Some (JObject ps) \<Rightarrow> None
      | None \<Rightarrow> None)"

definition n8nApiUrl :: "instance_context \<Rightarrow> string option" where
  "n8nApiUrl c = stringProperty c ''n8nApiUrl''"

definition instanceId :: "instance_context \<Rightarrow> string option" where
  "instanceId c = stringProperty c ''instanceId''"

record transport =
  sessionId :: string

record mcp_server =
  instanceContext :: "instance_context option"

record session_metadata =
  lastAccess :: int
  createdAt :: int

datatype log_level = Debug | Info | Warn

datatype log_entry = Log log_level string "string list"

text \<open>
  A request as \<^verbatim>\<open>handleRequest\<close> reads it: the \<^verbatim>\<open>mcp-session-id\<close> header and whether
  the body is an initialize message. \<open>environment\<close> holds, for one request, the value
  \<^verbatim>\<open>uuidv4()\<close> would return, the clock, and what the SDK does with the request: whether
  \<^verbatim>\<open>server.connect\<close> rejects, whether the new transport calls
  \<^verbatim>\<open>onsessioninitialized\<close>, and whether \<^verbatim>\<open>transport.handleRequest\<close> rejects.
\<close>

record environment =
  uuidv4 :: string
  clock :: int
  connectRejects :: bool
  firesOnSessionInitialized :: bool
  handleRequestRejects :: bool

record request =
  mcpSessionId :: "string option"
  isInitialize :: bool

text \<open>
  The state of the server object: the four tables, the lock map and the log. The field
  \<open>awaitingConnect\<close> is not a field of the class: it holds the initialize requests whose
  handler has passed the admission test and is suspended at \<^verbatim>\<open>await server.connect\<close>,
  that is, the continuations waiting on the event loop.
\<close>

record server_state =
  transports :: "transport js_object"
  servers :: "mcp_server js_object"
  sessionMetadata :: "session_metadata js_object"
  sessionContexts :: "instance_context option js_object"
  contextSwitchLocks :: "string set"
  logs :: "log_entry list"
  awaitingConnect :: "(environment \<times> request \<times> instance_context option) list"

definition initial_state :: server_state where
  "initial_state =
     \<lparr>transports = [], servers = [], sessionMetadata = [], sessionContexts = [],
      contextSwitchLocks = {}, logs = [], awaitingConnect = []\<rparr>"

definition registry ::
  "server_state \<Rightarrow>
   transport js_object \<times> mcp_server js_object \<times> session_metadata js_object \<times>
   instance_context option js_object" where
  "registry s = (transports s, servers s, sessionMetadata s, sessionContexts s)"

definition MAX_SESSIONS :: nat where
  "MAX_SESSIONS = 100"

definition sessionTimeout :: int where
  "sessionTimeout = 30 * 60 * 1000"

text \<open>
  The log is kept as a list of entries (level, message, the session id and reason of the
  payload). Recorded are the logger calls of \<^verbatim>\<open>removeSession\<close>,
  \<^verbatim>\<open>cleanupExpiredSessions\<close>, \<^verbatim>\<open>performContextSwitch\<close> and the
  \<^verbatim>\<open>onsessioninitialized\<close> callback, and the two warnings of \<^verbatim>\<open>handleRequest\<close>; the
  progress and error messages of \<^verbatim>\<open>handleRequest\<close> are left out. The log is not part of
  the registry.
\<close>

definition logger :: "log_level \<Rightarrow> string \<Rightarrow> string list \<Rightarrow> server_state \<Rightarrow> server_state" where
  "logger lvl msg payload s = s\<lparr>logs := logs s @ [Log lvl msg payload]\<rparr>"

subsection \<open>removeSession\<close>

text \<open>
  \<^verbatim>\<open>transport.close()\<close> is a call into the SDK; whether its promise resolves or rejects is
  given by the environment. A method call on an inherited built-in value raises a
  \<^verbatim>\<open>TypeError\<close>. \<open>removeSession_try\<close> is the body of the \<^verbatim>\<open>try\<close> block,
  \<open>removeSession\<close> adds the \<^verbatim>\<open>catch\<close>, and returns how the promise of the
  \<^verbatim>\<open>async\<close> function settles together with the state.
\<close>

datatype js_error = TypeError | CloseError

datatype close_outcome = CloseResolves | CloseRejects

datatype 'a settled = Resolved 'a | Rejected js_error

definition removeSession_try ::
  "close_outcome \<Rightarrow> server_state \<Rightarrow> string \<Rightarrow> string \<Rightarrow> js_error + server_state" where
  "removeSession_try c s sid reason =
     (case (case js_get (transports s) sid of
              Own t \<Rightarrow>
                (case c of
                   CloseRejects \<Rightarrow> Inl CloseError
                 | CloseResolves \<Rightarrow> Inr (s\<lparr>transports := js_delete (transports s) sid\<rparr>))
            | Inherited \<Rightarrow> Inl TypeError
            | Absent \<Rightarrow> Inr s) of
        Inl e \<Rightarrow> Inl e
      | Inr s1 \<Rightarrow>
          Inr (logger Info ''Session removed'' [sid, reason]
                (s1\<lparr>servers := js_delete (servers s1) sid,
                    sessionMetadata := js_delete (sessionMetadata s1) sid,
                    sessionContexts := js_delete (sessionContexts s1) sid\<rparr>)))"

definition removeSession ::
  "close_outcome \<Rightarrow> server_state \<Rightarrow> string \<Rightarrow> string \<Rightarrow> unit settled \<times> server_state" where
  "removeSession c s sid reason =
     (case removeSession_try c s sid reason of
        Inr s' \<Rightarrow> (Resolved (), s')
      | Inl e \<Rightarrow> (Resolved (), logger Warn ''Error removing session'' [sid, reason] s))"

subsection \<open>Counting and validating\<close>

definition getActiveSessionCount :: "server_state \<Rightarrow> nat" where
  "getActiveSessionCount s = length (js_keys (transports s))"

definition canCreateSession :: "server_state \<Rightarrow> bool" where
  "canCreateSession s = (getActiveSessionCount s < MAX_SESSIONS)"

definition isValidSessionId :: "string \<Rightarrow> bool" where
  "isValidSessionId sid = (sid \<noteq> [] \<and> length sid > 0)"

subsection \<open>cleanupExpiredSessions and getSessionMetrics\<close>

text \<open>
  The clock is read by the environment (\<open>now\<close>). The sweep calls \<^verbatim>\<open>removeSession\<close> for
  every expired id without awaiting it; the sweep is taken as finished once these calls
  have settled, \<open>closes\<close> giving the outcome of each transport's \<^verbatim>\<open>close()\<close>.
\<close>

definition isExpired :: "int \<Rightarrow> server_state \<Rightarrow> string \<Rightarrow> bool" where
  "isExpired now s sid =
     (case js_get (sessionMetadata s) sid of
        Own md \<Rightarrow> now - lastAccess md > sessionTimeout
      | Inherited \<Rightarrow> False
      | Absent \<Rightarrow> False)"

definition cleanOrphanedContext :: "string \<Rightarrow> server_state \<Rightarrow> server_state" where
  "cleanOrphanedContext sid s =
     (if js_get (sessionMetadata s) sid = Absent
      then logger Debug ''Cleaned orphaned session context'' [sid]
             (s\<lparr>sessionContexts := js_delete (sessionContexts s) sid\<rparr>)
      else s)"

definition cleanupExpiredSessions ::
  "int \<Rightarrow> (string \<Rightarrow> close_outcome) \<Rightarrow> server_state \<Rightarrow> server_state" where
  "cleanupExpiredSessions now closes s =
     (let expiredSessions = filter (isExpired now s) (js_keys (sessionMetadata s));
          s1 = fold cleanOrphanedContext (js_keys (sessionContexts s)) s;
          s2 = fold (\<lambda>sid st. snd (removeSession (closes sid) st sid ''expired''))
                 expiredSessions s1
      in if length expiredSessions > 0
         then logger Info ''Cleaned up expired sessions'' [] s2
         else s2)"

record SessionMetrics =
  totalSessions :: nat
  activeSessions :: nat
  expiredSessions :: nat
  lastCleanup :: int

text \<open>\<open>now\<close> is the value of \<^verbatim>\<open>Date.now()\<close>, \<open>newDate\<close> that of the later \<^verbatim>\<open>new Date()\<close>.\<close>

definition getSessionMetrics :: "int \<Rightarrow> int \<Rightarrow> server_state \<Rightarrow> SessionMetrics" where
  "getSessionMetrics now newDate s =
     \<lparr>totalSessions = length (js_keys (sessionMetadata s)),
      activeSessions = getActiveSessionCount s,
      expiredSessions = length (filter (isExpired now s) (js_keys (sessionMetadata s))),
      lastCleanup = newDate\<rparr>"

subsection \<open>Context switching\<close>

text \<open>
  \<^verbatim>\<open>JSON.stringify\<close> of an instance context writes its defined properties in the
  object's own key order; the text is represented by the document it denotes, and two
  texts are equal exactly when the documents are. Two contexts with the same properties
  in a different key order therefore have different texts. \<^verbatim>\<open>JSON.stringify\<close> of
  \<^verbatim>\<open>undefined\<close> and of a function is \<^verbatim>\<open>undefined\<close>.
\<close>

definition JSON_stringify :: "instance_context option js_lookup \<Rightarrow> json option" where
  "JSON_stringify v =
     (case v of
        Own (Some c) \<Rightarrow> Some (JObject c)
      | Own None \<Rightarrow> None
      | Inherited \<Rightarrow> None
      | Absent \<Rightarrow> None)"

text \<open>
  With an inherited built-in value in place of the server, the assignment of
  \<^verbatim>\<open>instanceContext\<close> lands on that built-in function object and leaves the registry as
  it is. Under the key \<^verbatim>\<open>__proto__\<close> the writes reach \<^verbatim>\<open>Object.prototype\<close> itself,
  and the result is \<open>None\<close> as for \<open>js_set\<close>.
\<close>

definition performContextSwitch ::
  "server_state \<Rightarrow> string \<Rightarrow> instance_context \<Rightarrow> server_state option" where
  "performContextSwitch s sid newContext =
     (if sid = ''__proto__'' then None
      else
        let existingContext = js_get (sessionContexts s) sid in
        if JSON_stringify existingContext \<noteq> JSON_stringify (Own (Some newContext))
        then
          (case js_set (sessionContexts s) sid (Some newContext) of
             None \<Rightarrow> None
           | Some contexts' \<Rightarrow>
               let s1 = (logger Info
                           ''Multi-tenant shared mode: Updating instance context for session''
                           [sid] s)\<lparr>sessionContexts := contexts'\<rparr>
               in (case js_get (servers s1) sid of
                     Own srv \<Rightarrow>
                       Some (s1\<lparr>servers :=
                                  AList.update sid (srv\<lparr>instanceContext := Some newContext\<rparr>)
                                    (servers s1)\<rparr>)
                   | Inherited \<Rightarrow> Some s1
                   | Absent \<Rightarrow> Some s1))
        else Some s)"

text \<open>
  \<^verbatim>\<open>switchSessionContext\<close> is an \<^verbatim>\<open>async\<close> function: it runs without interruption up
  to an \<^verbatim>\<open>await\<close> and is resumed later. \<open>switch_step\<close> is one such uninterrupted piece.
  \<^verbatim>\<open>performContextSwitch\<close> contains no \<^verbatim>\<open>await\<close>, so it runs to its end inside the
  first piece and its promise is already resolved when it is stored as the lock.
\<close>

datatype switch_call =
  Called instance_context | AwaitingExistingLock | AwaitingSwitchPromise | Returned

definition switch_step ::
  "string \<Rightarrow> switch_call \<Rightarrow> server_state \<Rightarrow> (switch_call \<times> server_state) option" where
  "switch_step sid t s =
     (case t of
        Called newContext \<Rightarrow>
          if sid \<in> contextSwitchLocks s then Some (AwaitingExistingLock, s)
          else
            (case performContextSwitch s sid newContext of
               None \<Rightarrow> None
             | Some s' \<Rightarrow>
                 Some (AwaitingSwitchPromise,
                       s'\<lparr>contextSwitchLocks := insert sid (contextSwitchLocks s')\<rparr>))
      | AwaitingExistingLock \<Rightarrow> Some (Returned, s)
      | AwaitingSwitchPromise \<Rightarrow>
          Some (Returned, s\<lparr>contextSwitchLocks := contextSwitchLocks s - {sid}\<rparr>)
      | Returned \<Rightarrow> Some (Returned, s))"

text \<open>The call run to its end with nothing else scheduled in between.\<close>

definition switchSessionContext ::
  "server_state \<Rightarrow> string \<Rightarrow> instance_context \<Rightarrow> server_state option" where
  "switchSessionContext s sid newContext =
     (case switch_step sid (Called newContext) s of
        None \<Rightarrow> None
      | Some (t, s1) \<Rightarrow>
          (case switch_step sid t s1 of
             None \<Rightarrow> None
           | Some (t', s2) \<Rightarrow> Some s2))"



subsection \<open>handleRequest\<close>

text \<open>
  \<open>config\<close> holds what the handler reads from \<^verbatim>\<open>process.env\<close> and the digest used for
  the configuration hash (the first eight hex digits of the SHA-256 of the URL and instance
  id).
\<close>

record config =
  enableMultiTenant :: bool
  multiTenantSessionStrategy :: "string option"
  configHash :: "string option \<Rightarrow> string \<Rightarrow> string"

datatype response =
  JsonRpcError nat int string | HandledByTransport | InternalError

definition sessionStrategy :: "config \<Rightarrow> string" where
  "sessionStrategy cfg =
     (case multiTenantSessionStrategy cfg of
        None \<Rightarrow> ''instance''
      | Some v \<Rightarrow> if v = [] then ''instance'' else v)"

definition truthy :: "string option \<Rightarrow> bool" where
  "truthy v = (case v of None \<Rightarrow> False | Some x \<Rightarrow> x \<noteq> [])"

text \<open>
  \<^verbatim>\<open>updateSessionAccess\<close> writes \<^verbatim>\<open>lastAccess\<close> on whatever the read of
  \<^verbatim>\<open>sessionMetadata[sessionId]\<close> returns: on the session's own entry, or on an inherited
  built-in function object (no table changes), or, under the key \<^verbatim>\<open>__proto__\<close>, on
  \<^verbatim>\<open>Object.prototype\<close> (result \<open>None\<close>).
\<close>

definition updateSessionAccess :: "int \<Rightarrow> server_state \<Rightarrow> string \<Rightarrow> server_state option" where
  "updateSessionAccess now s sid =
     (case js_get (sessionMetadata s) sid of
        Own md \<Rightarrow>
          Some (s\<lparr>sessionMetadata :=
                    AList.update sid (md\<lparr>lastAccess := now\<rparr>) (sessionMetadata s)\<rparr>)
      | Inherited \<Rightarrow> if sid = ''__proto__'' then None else Some s
      | Absent \<Rightarrow> Some s)"

definition sessionIdToUse ::
  "config \<Rightarrow> environment \<Rightarrow> string option \<Rightarrow> instance_context option \<Rightarrow> string" where
  "sessionIdToUse cfg env sid ctx =
     (case ctx of
        Some c \<Rightarrow>
          if enableMultiTenant cfg \<and> sessionStrategy cfg = ''instance'' \<and> truthy (instanceId c)
          then ''instance-'' @ the (instanceId c) @ ''-'' @
               configHash cfg (n8nApiUrl c) (the (instanceId c)) @ ''-'' @ uuidv4 env
          else if truthy sid then the sid else uuidv4 env
      | None \<Rightarrow> if truthy sid then the sid else uuidv4 env)"

definition onsessioninitialized ::
  "int \<Rightarrow> server_state \<Rightarrow> string \<Rightarrow> transport \<Rightarrow> mcp_server \<Rightarrow> instance_context option \<Rightarrow>
   server_state option" where
  "onsessioninitialized now s sid t srv ctx =
     (case js_set (transports s) sid t of
        None \<Rightarrow> None
      | Some ts \<Rightarrow>
     (case js_set (servers s) sid srv of
        None \<Rightarrow> None
      | Some ss \<Rightarrow>
     (case js_set (sessionMetadata s) sid \<lparr>lastAccess = now, createdAt = now\<rparr> of
        None \<Rightarrow> None
      | Some ms \<Rightarrow>
     (case js_set (sessionContexts s) sid ctx of
        None \<Rightarrow> None
      | Some cs \<Rightarrow>
          Some ((logger Info ''handleRequest: Session initialized, storing transport and server''
                   [sid] s)
                \<lparr>transports := ts, servers := ss, sessionMetadata := ms,
                 sessionContexts := cs\<rparr>)))))"

definition createSession ::
  "config \<Rightarrow> environment \<Rightarrow> request \<Rightarrow> instance_context option \<Rightarrow> server_state \<Rightarrow>
   (response \<times> server_state) option" where
  "createSession cfg env req ctx s =
     (let sid = sessionIdToUse cfg env (mcpSessionId req) ctx;
          server = \<lparr>instanceContext = ctx\<rparr>;
          transport = \<lparr>sessionId = sid\<rparr>
      in if connectRejects env then Some (InternalError, s)
         else
           (case (if firesOnSessionInitialized env
                  then onsessioninitialized (clock env) s sid transport server ctx
                  else Some s) of
              None \<Rightarrow> None
            | Some s' \<Rightarrow>
                Some (if handleRequestRejects env then InternalError else HandledByTransport,
                      s')))"

definition continueSession ::
  "config \<Rightarrow> environment \<Rightarrow> string \<Rightarrow> instance_context option \<Rightarrow> server_state \<Rightarrow>
   (response \<times> server_state) option" where
  "continueSession cfg env sid ctx s =
     (if \<not> isValidSessionId sid
      then Some (JsonRpcError 400 (- 32602) ''Invalid session ID format'', s)
      else
        (case (case ctx of
                 Some c \<Rightarrow>
                   if enableMultiTenant cfg \<and> sessionStrategy cfg = ''shared''
                   then switchSessionContext s sid c
                   else Some s
               | None \<Rightarrow> Some s) of
           None \<Rightarrow> None
         | Some s1 \<Rightarrow>
             (case updateSessionAccess (clock env) s1 sid of
                None \<Rightarrow> None
              | Some s2 \<Rightarrow>
                  (case js_get (transports s) sid of
                     Own t \<Rightarrow>
                       Some (if handleRequestRejects env then InternalError
                             else HandledByTransport, s2)
                   | Inherited \<Rightarrow> Some (InternalError, s2)
                   | Absent \<Rightarrow> Some (InternalError, s2)))))"

definition rejectRequest :: "request \<Rightarrow> server_state \<Rightarrow> response \<times> server_state" where
  "rejectRequest req s =
     (let sid = mcpSessionId req;
          errorMessage =
            (if truthy sid \<and> \<not> isValidSessionId (the sid)
             then ''Bad Request: Invalid session ID format''
             else if truthy sid \<and> js_get (transports s) (the sid) = Absent
             then ''Bad Request: Session not found or expired''
             else ''Bad Request: No valid session ID provided and not an initialize request'')
      in (JsonRpcError 400 (- 32000) errorMessage,
          logger Warn ''handleRequest: Invalid request - no session ID and not initialize'' [] s))"

definition handleRequest ::
  "config \<Rightarrow> environment \<Rightarrow> request \<Rightarrow> instance_context option \<Rightarrow> server_state \<Rightarrow>
   (response \<times> server_state) option" where
  "handleRequest cfg env req ctx s =
     (if isInitialize req
      then
        (if \<not> canCreateSession s
         then Some (JsonRpcError 429 (- 32000)
                      ''Session limit reached (100). Please wait for existing sessions to expire.'',
                    logger Warn ''handleRequest: Session limit reached'' [] s)
         else createSession cfg env req ctx s)
      else if truthy (mcpSessionId req) \<and> js_get (transports s) (the (mcpSessionId req)) \<noteq> Absent
      then continueSession cfg env (the (mcpSessionId req)) ctx s
      else Some (rejectRequest req s))"

subsection \<open>The pieces of an initialize request\<close>

text \<open>
  \<^verbatim>\<open>handleRequest\<close> is an \<^verbatim>\<open>async\<close> function. An initialize request that passes the
  admission test runs on to \<^verbatim>\<open>await server.connect(transport)\<close> and is suspended there;
  the insert into the four tables happens later, in the \<^verbatim>\<open>onsessioninitialized\<close>
  callback under \<^verbatim>\<open>await transport.handleRequest\<close>, in whatever state the registry has
  by then. \<open>beginRequest\<close> is the piece up to the first \<^verbatim>\<open>await\<close>: a request that is
  not admitted, or is not an initialize request, is answered at once as in
  \<open>handleRequest\<close>. \<open>resumeRequest\<close> is the rest of the \<open>n\<close>-th suspended request; the
  session id it uses was fixed before the suspension and does not depend on the registry.
  \<open>handleRequest\<close> above is the request handled with nothing else scheduled in between.
\<close>

definition beginRequest ::
  "config \<Rightarrow> environment \<Rightarrow> request \<Rightarrow> instance_context option \<Rightarrow> server_state \<Rightarrow>
   server_state option" where
  "beginRequest cfg env req ctx s =
     (if isInitialize req \<and> canCreateSession s
      then Some (s\<lparr>awaitingConnect := awaitingConnect s @ [(env, req, ctx)]\<rparr>)
      else map_option snd (handleRequest cfg env req ctx s))"

definition resumeRequest :: "config \<Rightarrow> nat \<Rightarrow> server_state \<Rightarrow> server_state option" where
  "resumeRequest cfg n s =
     (if n < length (awaitingConnect s)
      then
        (case awaitingConnect s ! n of
           (env, req, ctx) \<Rightarrow>
             map_option snd
               (createSession cfg env req ctx
                  (s\<lparr>awaitingConnect :=
                       take n (awaitingConnect s) @ drop (Suc n) (awaitingConnect s)\<rparr>)))
      else Some s)"

subsection \<open>Runs of the server\<close>

text \<open>
  The steps that change the registry, in the order in which the event loop runs them:
  a request handled without interruption (\<open>Request\<close>), the first piece of a request
  (\<open>Begin\<close>) and the resumption of a suspended initialize request (\<open>Resume\<close>), a call of
  \<^verbatim>\<open>removeSession\<close> (from a transport's close or error callback, the DELETE route or
  shutdown), and a sweep. Requests overlap when other steps stand between a \<open>Begin\<close> and
  its \<open>Resume\<close>. A continuation request is a single step; the pieces of its context
  switch are interleaved in \<open>interleave\<close>. A run ends with \<open>None\<close> when a step assigns
  under the key \<^verbatim>\<open>__proto__\<close>.
\<close>

datatype event =
  Request environment request "instance_context option"
| Begin environment request "instance_context option"
| Resume nat
| Remove close_outcome string string
| Sweep int "string \<Rightarrow> close_outcome"

definition step :: "config \<Rightarrow> server_state \<Rightarrow> event \<Rightarrow> server_state option" where
  "step cfg s e =
     (case e of
        Request env req ctx \<Rightarrow> map_option snd (handleRequest cfg env req ctx s)
      | Begin env req ctx \<Rightarrow> beginRequest cfg env req ctx s
      | Resume n \<Rightarrow> resumeRequest cfg n s
      | Remove c sid reason \<Rightarrow> Some (snd (removeSession c s sid reason))
      | Sweep now closes \<Rightarrow> Some (cleanupExpiredSessions now closes s))"

fun run :: "config \<Rightarrow> server_state \<Rightarrow> event list \<Rightarrow> server_state option" where
  "run cfg s [] = Some s"
| "run cfg s (e # es) =
     (case step cfg s e of
        None \<Rightarrow> None
      | Some s' \<Rightarrow> run cfg s' es)"

text \<open>The steps of a run in which no two requests overlap.\<close>

fun uninterrupted :: "event \<Rightarrow> bool" where
  "uninterrupted (Request env req ctx) = True"
| "uninterrupted (Begin env req ctx) = False"
| "uninterrupted (Resume n) = False"
| "uninterrupted (Remove c sid reason) = True"
| "uninterrupted (Sweep now closes) = True"

subsection \<open>Auxiliary notions for the statements and proofs\<close>

text \<open>A session id under which none of the four tables holds an own entry.\<close>

definition removed :: "server_state \<Rightarrow> string \<Rightarrow> bool" where
  "removed s sid =
     (sid \<notin> set (js_keys (transports s)) \<and> sid \<notin> set (js_keys (servers s)) \<and>
      sid \<notin> set (js_keys (sessionMetadata s)) \<and> sid \<notin> set (js_keys (sessionContexts s)))"

text \<open>
  The invariant of the transport table in every run: the keys are pairwise distinct and
  every transport is stored under its own session id.
\<close>

definition ids_inv :: "transport js_object \<Rightarrow> bool" where
  "ids_inv ts = (distinct (map fst ts) \<and> (\<forall>p \<in> set ts. sessionId (snd p) = fst p))"

definition registry_inv :: "server_state \<Rightarrow> bool" where
  "registry_inv s = ids_inv (transports s)"

text \<open>
  Structural equality of two instance contexts as the specification uses the word: the
  same properties with the same values, whatever the key order.
\<close>

definition structurally_equal :: "instance_context \<Rightarrow> instance_context \<Rightarrow> bool" where
  "structurally_equal c c' =
     (distinct (map fst c) \<and> distinct (map fst c') \<and> set c = set c')"


subsection \<open>Concrete configurations, requests and states\<close>

definition default_config :: config where
  "default_config =
     \<lparr>enableMultiTenant = False, multiTenantSessionStrategy = None,
      configHash = (\<lambda>url iid. ''0a1b2c3d'')\<rparr>"

definition instance_config :: config where
  "instance_config =
     \<lparr>enableMultiTenant = True, multiTenantSessionStrategy = None,
      configHash = (\<lambda>url iid. ''0a1b2c3d'')\<rparr>"

definition shared_config :: config where
  "shared_config =
     \<lparr>enableMultiTenant = True, multiTenantSessionStrategy = Some ''shared'',
      configHash = (\<lambda>url iid. ''0a1b2c3d'')\<rparr>"

definition create_env :: "string \<Rightarrow> int \<Rightarrow> environment" where
  "create_env u t =
     \<lparr>uuidv4 = u, clock = t, connectRejects = False, firesOnSessionInitialized = True,
      handleRequestRejects = False\<rparr>"

definition initialize_request :: request where
  "initialize_request = \<lparr>mcpSessionId = None, isInitialize = True\<rparr>"

definition initialize_as :: "string \<Rightarrow> request" where
  "initialize_as sid = \<lparr>mcpSessionId = Some sid, isInitialize = True\<rparr>"

definition continuation_request :: "string \<Rightarrow> request" where
  "continuation_request sid = \<lparr>mcpSessionId = Some sid, isInitialize = False\<rparr>"

definition tenant_A :: instance_context where
  "tenant_A =
     [(''n8nApiUrl'', JString ''https://a.example''), (''n8nApiKey'', JString ''key-a''),
      (''instanceId'', JString ''tenant-a'')]"

definition tenant_A_reordered :: instance_context where
  "tenant_A_reordered =
     [(''n8nApiKey'', JString ''key-a''), (''n8nApiUrl'', JString ''https://a.example''),
      (''instanceId'', JString ''tenant-a'')]"

definition tenant_B :: instance_context where
  "tenant_B =
     [(''n8nApiUrl'', JString ''https://b.example''), (''n8nApiKey'', JString ''key-b''),
      (''instanceId'', JString ''tenant-b'')]"

text \<open>The state after one initialize request at time 0 that was given the id \<open>s1\<close>.\<close>

definition one_session :: server_state where
  "one_session =
     \<lparr>transports = [(''s1'', \<lparr>sessionId = ''s1''\<rparr>)],
      servers = [(''s1'', \<lparr>instanceContext = None\<rparr>)],
      sessionMetadata = [(''s1'', \<lparr>lastAccess = 0, createdAt = 0\<rparr>)],
      sessionContexts = [(''s1'', None)],
      contextSwitchLocks = {},
      logs = [Log Info ''handleRequest: Session initialized, storing transport and server''
                [''s1'']],
      awaitingConnect = []\<rparr>"

text \<open>A registry that holds \<open>MAX_SESSIONS\<close> sessions.\<close>

definition session_name :: "nat \<Rightarrow> string" where
  "session_name n = CHR ''s'' # replicate n CHR ''0''"

definition registry_of_size :: "nat \<Rightarrow> server_state" where
  "registry_of_size k =
     \<lparr>transports = map (\<lambda>n. (session_name n, \<lparr>sessionId = session_name n\<rparr>)) [0..<k],
      servers = map (\<lambda>n. (session_name n, \<lparr>instanceContext = None\<rparr>)) [0..<k],
      sessionMetadata = map (\<lambda>n. (session_name n, \<lparr>lastAccess = 0, createdAt = 0\<rparr>)) [0..<k],
      sessionContexts = map (\<lambda>n. (session_name n, None)) [0..<k],
      contextSwitchLocks = {},
      logs = map (\<lambda>n. Log Info
                          ''handleRequest: Session initialized, storing transport and server''
                          [session_name n]) [0..<k],
      awaitingConnect = []\<rparr>"

definition full_registry :: server_state where
  "full_registry = registry_of_size 100"

definition create_requests :: "nat \<Rightarrow> event list" where
  "create_requests k =
     map (\<lambda>n. Request (create_env (session_name n) 0) initialize_request None) [0..<k]"

text \<open>
  \<open>one_session\<close> after its context has been switched to \<open>tenant_A\<close>, and the same state
  while that switch is still in flight (the lock is set).
\<close>

definition one_session_A :: server_state where
  "one_session_A =
     \<lparr>transports = [(''s1'', \<lparr>sessionId = ''s1''\<rparr>)],
      servers = [(''s1'', \<lparr>instanceContext = Some tenant_A\<rparr>)],
      sessionMetadata = [(''s1'', \<lparr>lastAccess = 0, createdAt = 0\<rparr>)],
      sessionContexts = [(''s1'', Some tenant_A)],
      contextSwitchLocks = {},
      logs = [Log Info ''handleRequest: Session initialized, storing transport and server''
                [''s1''],
              Log Info ''Multi-tenant shared mode: Updating instance context for session''
                [''s1'']],
      awaitingConnect = []\<rparr>"

definition switching_to_A :: server_state where
  "switching_to_A = one_session_A\<lparr>contextSwitchLocks := {''s1''}\<rparr>"

text \<open>
  The state after two initialize requests (at the times 0 and 1) that both carried the
  session id \<open>dup\<close> in their header.
\<close>

definition dup_session :: server_state where
  "dup_session =
     \<lparr>transports = [(''dup'', \<lparr>sessionId = ''dup''\<rparr>)],
      servers = [(''dup'', \<lparr>instanceContext = None\<rparr>)],
      sessionMetadata = [(''dup'', \<lparr>lastAccess = 1, createdAt = 1\<rparr>)],
      sessionContexts = [(''dup'', None)],
      contextSwitchLocks = {},
      logs = [Log Info ''handleRequest: Session initialized, storing transport and server''
                [''dup''],
              Log Info ''handleRequest: Session initialized, storing transport and server''
                [''dup'']],
      awaitingConnect = []\<rparr>"

section \<open>Properties of the dictionary operations\<close>

lemma js_get_update: "js_get (AList.update k v obj) k' = (if k' = k then Own v else js_get obj k')"
  by (simp add: js_get_def update_conv')

lemma js_get_delete:
  "js_get (js_delete obj k) k' =
     (if k' = k then (if k \<in> set object_prototype_keys then Inherited else Absent)
      else js_get obj k')"
  by (simp add: js_get_def js_delete_def delete_conv')

lemma js_delete_not_own: "k \<notin> set (js_keys obj) \<Longrightarrow> js_delete obj k = obj"
  by (simp add: js_delete_def js_keys_def)

lemma js_get_Own_iff: "js_get obj k = Own v \<longleftrightarrow> map_of obj k = Some v"
  by (simp add: js_get_def split: option.splits)

lemma js_keys_iff: "k \<in> set (js_keys obj) \<longleftrightarrow> (\<exists>v. js_get obj k = Own v)"
proof -
  have "k \<in> set (js_keys obj) \<longleftrightarrow> map_of obj k \<noteq> None"
    by (simp add: js_keys_def map_of_eq_None_iff)
  then show ?thesis by (auto simp: js_get_Own_iff)
qed

lemma js_get_not_own: "k \<notin> set (js_keys obj) \<Longrightarrow> js_get obj k \<noteq> Own v"
  by (simp add: js_keys_iff)

lemma set_update_subset: "set (AList.update k v al) \<subseteq> insert (k, v) (set al)"
  by (induction al) auto

lemma length_update_le: "length (AList.update k v al) \<le> Suc (length al)"
  by (induction al) auto

lemma set_delete_subset: "set (AList.delete k al) \<subseteq> set al"
  by (auto simp: AList.delete_eq)

section \<open>Reaching the concrete states\<close>

lemma one_session_reachable:
  "run default_config initial_state [Request (create_env ''s1'' 0) initialize_request None] =
     Some one_session"
  by (simp add: step_def handleRequest_def canCreateSession_def getActiveSessionCount_def
      js_keys_def MAX_SESSIONS_def initial_state_def createSession_def create_env_def
      initialize_request_def sessionIdToUse_def truthy_def onsessioninitialized_def js_set_def
      logger_def one_session_def default_config_def Let_def)

lemma full_registry_count: "getActiveSessionCount full_registry = MAX_SESSIONS"
  by (simp add: getActiveSessionCount_def js_keys_def full_registry_def registry_of_size_def
      MAX_SESSIONS_def)

lemma update_append_new: "k \<notin> fst ` set al \<Longrightarrow> AList.update k v al = al @ [(k, v)]"
  by (induction al) auto

lemma session_name_inject: "session_name a = session_name b \<longleftrightarrow> a = b"
  by (simp add: session_name_def)

lemma session_name_new: "session_name k \<notin> fst ` set (map (\<lambda>n. (session_name n, f n)) [0..<k])"
  by (auto simp: session_name_inject)

lemma session_name_update:
  "AList.update (session_name k) (f k) (map (\<lambda>n. (session_name n, f n)) [0..<k]) =
     map (\<lambda>n. (session_name n, f n)) [0..<Suc k]"
  using update_append_new[OF session_name_new[of k f], of "f k"] by simp

lemma createSession_registry_of_size:
  "createSession default_config (create_env (session_name k) 0) initialize_request None
     ((registry_of_size k)\<lparr>awaitingConnect := p\<rparr>) =
   Some (HandledByTransport, (registry_of_size (Suc k))\<lparr>awaitingConnect := p\<rparr>)"
proof -
  have n: "session_name k \<noteq> ''__proto__''" by (simp add: session_name_def)
  have i: "sessionIdToUse default_config (create_env (session_name k) 0)
             (mcpSessionId initialize_request) None = session_name k"
    by (simp add: sessionIdToUse_def initialize_request_def truthy_def create_env_def)
  have o: "onsessioninitialized 0 ((registry_of_size k)\<lparr>awaitingConnect := p\<rparr>) (session_name k)
             \<lparr>sessionId = session_name k\<rparr> \<lparr>instanceContext = None\<rparr> None =
           Some ((registry_of_size (Suc k))\<lparr>awaitingConnect := p\<rparr>)"
    using n
      session_name_update[of k "\<lambda>n. \<lparr>sessionId = session_name n\<rparr>"]
      session_name_update[of k "\<lambda>n. \<lparr>instanceContext = None\<rparr>"]
      session_name_update[of k "\<lambda>n. \<lparr>lastAccess = 0, createdAt = 0\<rparr>"]
      session_name_update[of k "\<lambda>n. None"]
    by (simp add: onsessioninitialized_def js_set_def logger_def registry_of_size_def)
  show ?thesis
    using i o by (simp add: createSession_def Let_def create_env_def)
qed

lemma registry_of_size_awaiting: "(registry_of_size k)\<lparr>awaitingConnect := []\<rparr> = registry_of_size k"
  by (simp add: registry_of_size_def)

lemma create_step:
  assumes "k < 100"
  shows "step default_config (registry_of_size k)
           (Request (create_env (session_name k) 0) initialize_request None) =
         Some (registry_of_size (Suc k))"
proof -
  have c: "canCreateSession (registry_of_size k)"
    using assms
    by (simp add: canCreateSession_def getActiveSessionCount_def js_keys_def
        registry_of_size_def MAX_SESSIONS_def)
  have i: "isInitialize initialize_request" by (simp add: initialize_request_def)
  from createSession_registry_of_size[where k = k and p = "[]"] c i show ?thesis
    by (simp add: step_def handleRequest_def registry_of_size_awaiting)
qed

lemma run_append:
  "run cfg s (es @ es') = (case run cfg s es of None \<Rightarrow> None | Some s' \<Rightarrow> run cfg s' es')"
  by (induction es arbitrary: s) (auto split: option.splits)

lemma registry_of_size_reachable:
  "k \<le> 100 \<Longrightarrow> run default_config initial_state (create_requests k) = Some (registry_of_size k)"
proof (induction k)
  case 0
  show ?case by (simp add: create_requests_def registry_of_size_def initial_state_def)
next
  case (Suc k)
  then have "run default_config initial_state (create_requests k) = Some (registry_of_size k)"
    by simp
  moreover have "create_requests (Suc k) =
      create_requests k @ [Request (create_env (session_name k) 0) initialize_request None]"
    by (simp add: create_requests_def)
  ultimately show ?case using Suc.prems create_step[of k] by (simp add: run_append)
qed

lemma full_registry_reachable:
  "run default_config initial_state (create_requests 100) = Some full_registry"
  by (simp add: registry_of_size_reachable full_registry_def)

section \<open>Removing a session\<close>

lemma removeSession_resolves: "fst (removeSession c s sid reason) = Resolved ()"
  by (simp add: removeSession_def split: sum.splits)

lemma removeSession_close_resolves:
  assumes "js_get (transports s) sid \<noteq> Inherited"
  shows "removed (snd (removeSession CloseResolves s sid reason)) sid"
  using assms
  by (cases "js_get (transports s) sid")
     (auto simp: removed_def removeSession_def removeSession_try_def logger_def js_keys_iff
        js_get_delete)

lemma removeSession_close_rejects:
  assumes "js_get (transports s) sid = Own t"
  shows "registry (snd (removeSession CloseRejects s sid reason)) = registry s"
  using assms by (simp add: removeSession_def removeSession_try_def registry_def logger_def)

text \<open>
  Claim C4. \<^verbatim>\<open>removeSession\<close> is idempotent: a call for a session id that has no entry
  left in any of the four tables (its session has already been removed) changes none of
  the tables, and its promise resolves, whatever the outcome of a transport close would
  be. This includes the ids that name a property of \<^verbatim>\<open>Object.prototype\<close>: there the
  call of \<^verbatim>\<open>close\<close> on the inherited value raises inside the \<^verbatim>\<open>try\<close> block and
  is caught.
\<close>

theorem removeSession_idempotent:
  assumes "removed s sid"
  shows "fst (removeSession c s sid reason) = Resolved () \<and>
         registry (snd (removeSession c s sid reason)) = registry s"
proof -
  have own: "\<And>t. js_get (transports s) sid \<noteq> Own t"
    using assms by (simp add: removed_def js_get_not_own)
  have t: "js_get (transports s) sid = Inherited \<or> js_get (transports s) sid = Absent"
    using own by (cases "js_get (transports s) sid") auto
  from assms have d: "js_delete (servers s) sid = servers s"
      "js_delete (sessionMetadata s) sid = sessionMetadata s"
      "js_delete (sessionContexts s) sid = sessionContexts s"
    by (simp_all add: removed_def js_delete_not_own)
  from t d show ?thesis
    by (auto simp: removeSession_def removeSession_try_def registry_def logger_def)
qed

theorem removeSession_idempotent_witness:
  "removed (snd (removeSession CloseResolves one_session ''s1'' ''expired'')) ''s1'' \<and>
   fst (removeSession CloseRejects (snd (removeSession CloseResolves one_session ''s1'' ''expired''))
          ''s1'' ''transport_error'') = Resolved () \<and>
   registry (snd (removeSession CloseRejects
                    (snd (removeSession CloseResolves one_session ''s1'' ''expired''))
                    ''s1'' ''transport_error'')) =
   registry (snd (removeSession CloseResolves one_session ''s1'' ''expired''))"
proof -
  have r: "removed (snd (removeSession CloseResolves one_session ''s1'' ''expired'')) ''s1''"
    by (rule removeSession_close_resolves) (simp add: one_session_def js_get_def)
  from removeSession_idempotent[OF r, of CloseRejects "''transport_error''"] r
  show ?thesis by simp
qed

text \<open>
  Claim C5, evaluated on the program. The session \<open>s1\<close> is in the registry and its
  transport's \<^verbatim>\<open>close()\<close> rejects. The rejection leaves the \<^verbatim>\<open>try\<close> block before
  any \<^verbatim>\<open>delete\<close> has run: the failure is logged and the promise resolves, but all four
  tables still hold the session.
\<close>

theorem removeSession_close_failure_keeps_session:
  "removeSession CloseRejects one_session ''s1'' ''expired'' =
     (Resolved (), logger Warn ''Error removing session'' [''s1'', ''expired''] one_session) \<and>
   registry (snd (removeSession CloseRejects one_session ''s1'' ''expired'')) =
     registry one_session \<and>
   js_get (transports one_session) ''s1'' = Own \<lparr>sessionId = ''s1''\<rparr>"
  by (simp add: removeSession_def removeSession_try_def one_session_def js_get_def registry_def
      logger_def)

section \<open>The sweep and the metrics\<close>

text \<open>
  Claim C8, evaluated on the program. The only session, \<open>s1\<close>, was last accessed at time
  0, and the sweep runs one millisecond after the idle timeout has passed, so the session
  is expired. Its transport's \<^verbatim>\<open>close()\<close> rejects. The sweep calls
  \<^verbatim>\<open>removeSession\<close> with the reason \<^verbatim>\<open>expired\<close>, which logs the failure and deletes
  nothing: after the sweep the registry is what it was.
\<close>

theorem sweep_close_failure_keeps_expired_session:
  "isExpired (sessionTimeout + 1) one_session ''s1'' \<and>
   registry (cleanupExpiredSessions (sessionTimeout + 1) (\<lambda>sid. CloseRejects) one_session) =
     registry one_session"
  by (simp add: cleanupExpiredSessions_def isExpired_def js_keys_def cleanOrphanedContext_def
      removeSession_def removeSession_try_def one_session_def js_get_def registry_def logger_def
      sessionTimeout_def Let_def)

lemma own_keys_card:
  assumes "distinct (js_keys obj)"
  shows "length (js_keys obj) = card {k. \<exists>v. js_get obj k = Own v}"
proof -
  have "{k. \<exists>v. js_get obj k = Own v} = set (js_keys obj)"
    by (auto simp: js_keys_iff)
  with assms show ?thesis by (simp add: distinct_card)
qed

lemma isExpired_own: "isExpired now s sid \<Longrightarrow> sid \<in> set (js_keys (sessionMetadata s))"
  by (auto simp: isExpired_def js_keys_iff split: js_lookup.splits)

lemma removeSession_other:
  assumes "k \<noteq> sid"
  shows "js_get (transports (snd (removeSession c s k r))) sid = js_get (transports s) sid"
    and "js_get (servers (snd (removeSession c s k r))) sid = js_get (servers s) sid"
    and "js_get (sessionMetadata (snd (removeSession c s k r))) sid =
         js_get (sessionMetadata s) sid"
    and "js_get (sessionContexts (snd (removeSession c s k r))) sid =
         js_get (sessionContexts s) sid"
  using assms
  by (cases "js_get (transports s) k"; cases c;
      simp add: removeSession_def removeSession_try_def logger_def js_get_delete)+

lemma removeSession_keeps_removed:
  assumes "removed s sid"
  shows "removed (snd (removeSession c s k r)) sid"
  using assms
  by (cases "js_get (transports s) k"; cases c)
     (simp_all add: removeSession_def removeSession_try_def logger_def removed_def js_keys_def
        js_delete_def delete_keys)

lemma fold_removeSession_other:
  assumes "sid \<notin> set sids"
  shows "js_get (transports (fold (\<lambda>k st. snd (removeSession (closes k) st k r)) sids s)) sid =
           js_get (transports s) sid \<and>
         js_get (servers (fold (\<lambda>k st. snd (removeSession (closes k) st k r)) sids s)) sid =
           js_get (servers s) sid \<and>
         js_get (sessionMetadata (fold (\<lambda>k st. snd (removeSession (closes k) st k r)) sids s)) sid =
           js_get (sessionMetadata s) sid \<and>
         js_get (sessionContexts (fold (\<lambda>k st. snd (removeSession (closes k) st k r)) sids s)) sid =
           js_get (sessionContexts s) sid"
  using assms
proof (induction sids arbitrary: s)
  case Nil
  show ?case by simp
next
  case (Cons k ks)
  then have "k \<noteq> sid" and "sid \<notin> set ks" by auto
  from Cons.IH[OF this(2), of "snd (removeSession (closes k) s k r)"] removeSession_other[OF this(1)]
  show ?case by simp
qed

lemma fold_removeSession_removes:
  assumes "removed s sid \<or> (sid \<in> set sids \<and> js_get (transports s) sid \<noteq> Inherited)"
    and "closes sid = CloseResolves"
  shows "removed (fold (\<lambda>k st. snd (removeSession (closes k) st k r)) sids s) sid"
  using assms(1)
proof (induction sids arbitrary: s)
  case Nil
  then show ?case by simp
next
  case (Cons k ks)
  let ?s = "snd (removeSession (closes k) s k r)"
  have "removed ?s sid \<or> (sid \<in> set ks \<and> js_get (transports ?s) sid \<noteq> Inherited)"
  proof (cases "removed s sid")
    case True
    then show ?thesis by (simp add: removeSession_keeps_removed)
  next
    case False
    with Cons.prems have in_list: "sid \<in> set (k # ks)"
      and t: "js_get (transports s) sid \<noteq> Inherited" by auto
    show ?thesis
    proof (cases "k = sid")
      case True
      with t assms(2) show ?thesis by (simp add: removeSession_close_resolves)
    next
      case False
      with in_list t removeSession_other(1)[OF False, of "closes k" s r] show ?thesis by simp
    qed
  qed
  from Cons.IH[OF this] show ?case by simp
qed

lemma cleanOrphanedContext_tables:
  "transports (cleanOrphanedContext k s) = transports s"
  "servers (cleanOrphanedContext k s) = servers s"
  "sessionMetadata (cleanOrphanedContext k s) = sessionMetadata s"
  by (simp_all add: cleanOrphanedContext_def logger_def)

lemma fold_cleanOrphanedContext_tables:
  "transports (fold cleanOrphanedContext ks s) = transports s \<and>
   servers (fold cleanOrphanedContext ks s) = servers s \<and>
   sessionMetadata (fold cleanOrphanedContext ks s) = sessionMetadata s"
  by (induction ks arbitrary: s) (simp_all add: cleanOrphanedContext_tables)

lemma cleanOrphanedContext_context:
  assumes "js_get (sessionMetadata s) sid \<noteq> Absent"
  shows "js_get (sessionContexts (cleanOrphanedContext k s)) sid = js_get (sessionContexts s) sid"
  using assms by (auto simp: cleanOrphanedContext_def logger_def js_get_delete)

lemma fold_cleanOrphanedContext_context:
  assumes "js_get (sessionMetadata s) sid \<noteq> Absent"
  shows "js_get (sessionContexts (fold cleanOrphanedContext ks s)) sid =
         js_get (sessionContexts s) sid"
  using assms
proof (induction ks arbitrary: s)
  case Nil
  show ?case by simp
next
  case (Cons k ks)
  have "js_get (sessionMetadata (cleanOrphanedContext k s)) sid \<noteq> Absent"
    using Cons.prems by (simp add: cleanOrphanedContext_tables)
  from Cons.IH[OF this] cleanOrphanedContext_context[OF Cons.prems, of k] show ?case by simp
qed

text \<open>
  What the sweep does achieve. A session that is not expired keeps its four entries as
  they are. An expired session whose transport closes without error has no entry left.
\<close>

lemma sweep_keeps_unexpired:
  assumes "\<not> isExpired now s sid" and "js_get (sessionMetadata s) sid \<noteq> Absent"
  shows "js_get (transports (cleanupExpiredSessions now closes s)) sid =
           js_get (transports s) sid \<and>
         js_get (servers (cleanupExpiredSessions now closes s)) sid = js_get (servers s) sid \<and>
         js_get (sessionMetadata (cleanupExpiredSessions now closes s)) sid =
           js_get (sessionMetadata s) sid \<and>
         js_get (sessionContexts (cleanupExpiredSessions now closes s)) sid =
           js_get (sessionContexts s) sid"
proof -
  let ?s1 = "fold cleanOrphanedContext (js_keys (sessionContexts s)) s"
  let ?E = "filter (isExpired now s) (js_keys (sessionMetadata s))"
  from assms(1) have "sid \<notin> set ?E" by simp
  from fold_removeSession_other[OF this, of closes "''expired''" ?s1]
    fold_cleanOrphanedContext_tables[of "js_keys (sessionContexts s)" s]
    fold_cleanOrphanedContext_context[OF assms(2), of "js_keys (sessionContexts s)"]
  show ?thesis by (simp add: cleanupExpiredSessions_def Let_def logger_def)
qed

lemma sweep_removes_expired:
  assumes "isExpired now s sid" and "closes sid = CloseResolves"
    and "js_get (transports s) sid \<noteq> Inherited"
  shows "removed (cleanupExpiredSessions now closes s) sid"
proof -
  let ?s1 = "fold cleanOrphanedContext (js_keys (sessionContexts s)) s"
  let ?E = "filter (isExpired now s) (js_keys (sessionMetadata s))"
  from assms(1) have e: "sid \<in> set ?E" by (simp add: isExpired_own)
  then have ne: "?E \<noteq> []" by (metis empty_iff empty_set)
  note e
  moreover have "js_get (transports ?s1) sid \<noteq> Inherited"
    using assms(3) fold_cleanOrphanedContext_tables[of "js_keys (sessionContexts s)" s] by simp
  ultimately have "removed ?s1 sid \<or> (sid \<in> set ?E \<and> js_get (transports ?s1) sid \<noteq> Inherited)"
    by simp
  then have "removed (fold (\<lambda>k st. snd (removeSession (closes k) st k ''expired'')) ?E ?s1) sid"
    using assms(2) by (rule fold_removeSession_removes)
  with ne show ?thesis by (simp add: cleanupExpiredSessions_def Let_def logger_def removed_def)
qed

lemma expired_card:
  assumes "distinct (js_keys (sessionMetadata s))"
  shows "length (filter (isExpired now s) (js_keys (sessionMetadata s))) =
         card {sid. isExpired now s sid}"
proof -
  have "{sid. isExpired now s sid} \<inter> set (js_keys (sessionMetadata s)) =
        {sid. isExpired now s sid}"
    using isExpired_own by blast
  with distinct_length_filter[OF assms, of "isExpired now s"] show ?thesis by simp
qed

text \<open>
  Claim C9, as amended. For every registry whose tables have pairwise distinct keys,
  \<^verbatim>\<open>getSessionMetrics\<close> returns the number of sessions that have a metadata entry now
  (\<open>totalSessions\<close>), the number of transports registered now (\<open>activeSessions\<close>), the
  number of sessions whose idle time exceeds the timeout at the time of the call
  (\<open>expiredSessions\<close>), and the time of the call (\<open>lastCleanup\<close>).
\<close>

theorem getSessionMetrics_current_counts:
  assumes "distinct (js_keys (sessionMetadata s))" and "distinct (js_keys (transports s))"
  shows "totalSessions (getSessionMetrics now newDate s) =
           card {sid. \<exists>md. js_get (sessionMetadata s) sid = Own md} \<and>
         activeSessions (getSessionMetrics now newDate s) =
           card {sid. \<exists>t. js_get (transports s) sid = Own t} \<and>
         expiredSessions (getSessionMetrics now newDate s) = card {sid. isExpired now s sid} \<and>
         lastCleanup (getSessionMetrics now newDate s) = newDate"
  using own_keys_card[OF assms(1)] own_keys_card[OF assms(2)] expired_card[OF assms(1), of now]
  by (simp add: getSessionMetrics_def getActiveSessionCount_def)

theorem getSessionMetrics_current_counts_witness:
  "distinct (js_keys (sessionMetadata one_session)) \<and>
   distinct (js_keys (transports one_session)) \<and>
   totalSessions (getSessionMetrics 5 7 one_session) =
     card {sid. \<exists>md. js_get (sessionMetadata one_session) sid = Own md} \<and>
   activeSessions (getSessionMetrics 5 7 one_session) =
     card {sid. \<exists>t. js_get (transports one_session) sid = Own t} \<and>
   expiredSessions (getSessionMetrics 5 7 one_session) = card {sid. isExpired 5 one_session sid} \<and>
   lastCleanup (getSessionMetrics 5 7 one_session) = 7 \<and>
   totalSessions (getSessionMetrics 5 7 one_session) = 1"
proof -
  have d: "distinct (js_keys (sessionMetadata one_session))"
    "distinct (js_keys (transports one_session))"
    by (simp_all add: one_session_def js_keys_def)
  have "totalSessions (getSessionMetrics 5 7 one_session) = 1"
    by (simp add: getSessionMetrics_def one_session_def js_keys_def)
  with getSessionMetrics_current_counts[OF d, of 5 7] d show ?thesis by simp
qed

text \<open>
  Claim C9 as stated fails. One session is created by an initialize request and removed
  again by a DELETE; no sweep has run. Queried then (the clock reads 8, then 9), the
  metrics give \<open>totalSessions = 0\<close>, although one session was created, and
  \<open>lastCleanup = 9\<close>, the time of the query.
\<close>

theorem getSessionMetrics_total_not_cumulative:
  "run default_config initial_state [Request (create_env ''s1'' 0) initialize_request None] =
     Some one_session \<and>
   getActiveSessionCount one_session = 1 \<and>
   totalSessions (getSessionMetrics 8 9
     (snd (removeSession CloseResolves one_session ''s1'' ''manual_termination''))) = 0 \<and>
   lastCleanup (getSessionMetrics 8 9
     (snd (removeSession CloseResolves one_session ''s1'' ''manual_termination''))) = 9"
proof -
  have "getActiveSessionCount one_session = 1"
    by (simp add: getActiveSessionCount_def one_session_def js_keys_def)
  moreover have "sessionMetadata
      (snd (removeSession CloseResolves one_session ''s1'' ''manual_termination'')) = []"
    by (simp add: removeSession_def removeSession_try_def one_session_def js_get_def
        js_delete_def logger_def)
  ultimately show ?thesis
    using one_session_reachable by (simp only: getSessionMetrics_def js_keys_def) simp
qed

section \<open>Switching the instance context\<close>

lemma JSON_stringify_eq_iff:
  "JSON_stringify v = JSON_stringify (Own (Some c)) \<longleftrightarrow> v = Own (Some c)"
  by (cases v) (auto simp: JSON_stringify_def split: option.splits)

lemma performContextSwitch_same:
  assumes "sid \<noteq> ''__proto__''" and "js_get (sessionContexts s) sid = Own (Some c)"
  shows "performContextSwitch s sid c = Some s"
  using assms by (simp add: performContextSwitch_def)

lemma performContextSwitch_differs:
  assumes "sid \<noteq> ''__proto__''" and "js_get (sessionContexts s) sid \<noteq> Own (Some c)"
    and "js_get (servers s) sid = Own srv"
  shows "performContextSwitch s sid c =
     Some ((logger Info ''Multi-tenant shared mode: Updating instance context for session''
              [sid] s)
           \<lparr>sessionContexts := AList.update sid (Some c) (sessionContexts s),
            servers := AList.update sid (srv\<lparr>instanceContext := Some c\<rparr>) (servers s)\<rparr>)"
  using assms
  by (simp add: performContextSwitch_def JSON_stringify_eq_iff js_set_def Let_def logger_def)

text \<open>
  Claim C6, as amended. For a session with a stored context and a handler (no session can
  be stored under the key \<^verbatim>\<open>__proto__\<close>): when the JSON text of the requested context
  equals the JSON text of the stored one, that is, when both have the same properties with
  the same values in the same key order, \<^verbatim>\<open>performContextSwitch\<close> changes nothing at
  all; when the texts differ, the stored context becomes the requested context and the
  handler's \<^verbatim>\<open>instanceContext\<close> becomes the requested context, both as a whole, and
  nothing else in the registry changes.
\<close>

theorem performContextSwitch_replaces_on_text_change:
  assumes "sid \<noteq> ''__proto__''" and "js_get (sessionContexts s) sid = Own stored"
    and "js_get (servers s) sid = Own srv"
  shows "((JSON_stringify (Own stored) = JSON_stringify (Own (Some c))) = (stored = Some c)) \<and>
         (JSON_stringify (Own stored) = JSON_stringify (Own (Some c)) \<longrightarrow>
            performContextSwitch s sid c = Some s) \<and>
         (JSON_stringify (Own stored) \<noteq> JSON_stringify (Own (Some c)) \<longrightarrow>
            (\<exists>s'. performContextSwitch s sid c = Some s' \<and>
               js_get (sessionContexts s') sid = Own (Some c) \<and>
               js_get (servers s') sid = Own (srv\<lparr>instanceContext := Some c\<rparr>) \<and>
               transports s' = transports s \<and> sessionMetadata s' = sessionMetadata s \<and>
               contextSwitchLocks s' = contextSwitchLocks s \<and>
               (\<forall>k. k \<noteq> sid \<longrightarrow>
                  js_get (sessionContexts s') k = js_get (sessionContexts s) k \<and>
                  js_get (servers s') k = js_get (servers s) k)))"
proof -
  have t: "(JSON_stringify (Own stored) = JSON_stringify (Own (Some c))) = (stored = Some c)"
    by (simp add: JSON_stringify_eq_iff)
  show ?thesis
  proof (cases "stored = Some c")
    case True
    with assms t show ?thesis by (simp add: performContextSwitch_same)
  next
    case False
    with assms(2) have "js_get (sessionContexts s) sid \<noteq> Own (Some c)" by simp
    from performContextSwitch_differs[OF assms(1) this assms(3)] False t
    show ?thesis by (simp add: js_get_update logger_def)
  qed
qed

theorem performContextSwitch_replaces_on_text_change_witness:
  "performContextSwitch one_session_A ''s1'' tenant_A = Some one_session_A \<and>
   (\<exists>s'. performContextSwitch one_session_A ''s1'' tenant_B = Some s' \<and>
      js_get (sessionContexts s') ''s1'' = Own (Some tenant_B) \<and>
      js_get (servers s') ''s1'' = Own \<lparr>instanceContext = Some tenant_B\<rparr>)"
proof -
  have sid: "''s1'' \<noteq> ''__proto__''" by simp
  have c: "js_get (sessionContexts one_session_A) ''s1'' = Own (Some tenant_A)"
    by (simp add: one_session_A_def js_get_def)
  have v: "js_get (servers one_session_A) ''s1'' = Own \<lparr>instanceContext = Some tenant_A\<rparr>"
    by (simp add: one_session_A_def js_get_def)
  have eq: "JSON_stringify (Own (Some tenant_A)) = JSON_stringify (Own (Some tenant_A))"
    by simp
  have ne: "JSON_stringify (Own (Some tenant_A)) \<noteq> JSON_stringify (Own (Some tenant_B))"
    by (simp add: JSON_stringify_def tenant_A_def tenant_B_def)
  from performContextSwitch_replaces_on_text_change[OF sid c v, of tenant_A] eq
  have same: "performContextSwitch one_session_A ''s1'' tenant_A = Some one_session_A" by blast
  from performContextSwitch_replaces_on_text_change[OF sid c v, of tenant_B] ne
  obtain s' where "performContextSwitch one_session_A ''s1'' tenant_B = Some s'"
    "js_get (sessionContexts s') ''s1'' = Own (Some tenant_B)"
    "js_get (servers s') ''s1'' = Own \<lparr>instanceContext = Some tenant_B\<rparr>"
    by auto
  with same show ?thesis by blast
qed

text \<open>
  Claim C6 as stated fails. The session \<open>s1\<close> stores \<open>tenant_A\<close>, and the requested
  context has the same three properties with the same values, the key and the URL in the
  other order. The two are structurally equal, but their JSON texts differ, so the test
  finds a change: the requested object replaces the stored one and the handler's, and the
  switch is logged.
\<close>

theorem performContextSwitch_reordered_keys_replaced:
  "structurally_equal tenant_A tenant_A_reordered \<and>
   js_get (sessionContexts one_session_A) ''s1'' = Own (Some tenant_A) \<and>
   performContextSwitch one_session_A ''s1'' tenant_A_reordered \<noteq> Some one_session_A \<and>
   (\<exists>s'. performContextSwitch one_session_A ''s1'' tenant_A_reordered = Some s' \<and>
      js_get (sessionContexts s') ''s1'' = Own (Some tenant_A_reordered) \<and>
      js_get (servers s') ''s1'' = Own \<lparr>instanceContext = Some tenant_A_reordered\<rparr> \<and>
      logs s' = logs one_session_A @
        [Log Info ''Multi-tenant shared mode: Updating instance context for session''
           [''s1'']])"
proof -
  have e: "structurally_equal tenant_A tenant_A_reordered"
    by (auto simp: structurally_equal_def tenant_A_def tenant_A_reordered_def)
  have c: "js_get (sessionContexts one_session_A) ''s1'' = Own (Some tenant_A)"
    by (simp add: one_session_A_def js_get_def)
  have p: "performContextSwitch one_session_A ''s1'' tenant_A_reordered =
      Some ((logger Info ''Multi-tenant shared mode: Updating instance context for session''
               [''s1''] one_session_A)
            \<lparr>sessionContexts := [(''s1'', Some tenant_A_reordered)],
             servers := [(''s1'', \<lparr>instanceContext = Some tenant_A_reordered\<rparr>)]\<rparr>)"
    by (simp add: performContextSwitch_def JSON_stringify_def js_get_def js_set_def Let_def
        logger_def one_session_A_def tenant_A_def tenant_A_reordered_def)
  have n: "performContextSwitch one_session_A ''s1'' tenant_A_reordered \<noteq> Some one_session_A"
    unfolding p by (simp add: logger_def one_session_A_def)
  from e c n p show ?thesis by (simp add: js_get_def logger_def)
qed

lemma switching_to_A_reachable:
  "switch_step ''s1'' (Called tenant_A) one_session = Some (AwaitingSwitchPromise, switching_to_A)"
  by (simp add: switch_step_def performContextSwitch_def one_session_def js_get_def
      JSON_stringify_def js_set_def Let_def logger_def switching_to_A_def one_session_A_def)

text \<open>
  Claim C10. While a switch is in flight for a session (its id is in
  \<^verbatim>\<open>contextSwitchLocks\<close>), a new call of \<^verbatim>\<open>switchSessionContext\<close> for that session
  performs no switch: its first piece only starts awaiting the lock and leaves the state
  as it is, and its second piece returns and leaves whatever state it finds as it is. The
  context passed to the call is stored nowhere.
\<close>

theorem switch_in_flight_discards_context:
  assumes "sid \<in> contextSwitchLocks s"
  shows "switch_step sid (Called c) s = Some (AwaitingExistingLock, s) \<and>
         (\<forall>s'. switch_step sid AwaitingExistingLock s' = Some (Returned, s')) \<and>
         switchSessionContext s sid c = Some s"
  using assms by (simp add: switch_step_def switchSessionContext_def)

theorem switch_in_flight_discards_context_witness:
  "''s1'' \<in> contextSwitchLocks switching_to_A \<and>
   switch_step ''s1'' (Called tenant_B) switching_to_A = Some (AwaitingExistingLock, switching_to_A) \<and>
   switch_step ''s1'' AwaitingExistingLock one_session_A = Some (Returned, one_session_A) \<and>
   switchSessionContext switching_to_A ''s1'' tenant_B = Some switching_to_A"
proof -
  have l: "''s1'' \<in> contextSwitchLocks switching_to_A"
    by (simp add: switching_to_A_def)
  from switch_in_flight_discards_context[OF l, of tenant_B] l show ?thesis by simp
qed

section \<open>Two interleaved context switches\<close>










section \<open>Requests and runs\<close>

lemma ids_inv_update:
  assumes "ids_inv ts"
  shows "ids_inv (AList.update sid \<lparr>sessionId = sid\<rparr> ts)"
proof -
  have "\<forall>p \<in> set (AList.update sid \<lparr>sessionId = sid\<rparr> ts). sessionId (snd p) = fst p"
    using set_update_subset[of sid "\<lparr>sessionId = sid\<rparr>" ts] assms
    by (auto simp: ids_inv_def)
  then show ?thesis using assms by (simp add: ids_inv_def distinct_update)
qed

lemma ids_inv_delete:
  assumes "ids_inv ts"
  shows "ids_inv (js_delete ts sid)"
proof -
  have "\<forall>p \<in> set (AList.delete sid ts). sessionId (snd p) = fst p"
    using set_delete_subset[of sid ts] assms by (auto simp: ids_inv_def)
  then show ?thesis using assms by (simp add: ids_inv_def js_delete_def distinct_delete)
qed

lemma removeSession_transports:
  "transports (snd (removeSession c s sid reason)) = transports s \<or>
   transports (snd (removeSession c s sid reason)) = js_delete (transports s) sid"
  by (cases "js_get (transports s) sid"; cases c)
     (simp_all add: removeSession_def removeSession_try_def logger_def)

lemma removeSession_inv: "registry_inv s \<Longrightarrow> registry_inv (snd (removeSession c s sid reason))"
  using removeSession_transports[of c s sid reason]
  by (auto simp: registry_inv_def ids_inv_delete)

lemma cleanOrphanedContext_transports: "transports (cleanOrphanedContext sid s) = transports s"
  by (simp add: cleanOrphanedContext_def logger_def)

lemma fold_cleanOrphanedContext_transports:
  "transports (fold cleanOrphanedContext sids s) = transports s"
  by (induction sids arbitrary: s) (simp_all add: cleanOrphanedContext_transports)

lemma fold_removeSession_inv:
  "registry_inv s \<Longrightarrow>
   registry_inv (fold (\<lambda>sid st. snd (removeSession (closes sid) st sid reason)) sids s)"
  by (induction sids arbitrary: s) (simp_all add: removeSession_inv)

lemma cleanupExpiredSessions_transports:
  "transports (cleanupExpiredSessions now closes s) =
   transports (fold (\<lambda>sid st. snd (removeSession (closes sid) st sid ''expired''))
                 (filter (isExpired now s) (js_keys (sessionMetadata s)))
                 (fold cleanOrphanedContext (js_keys (sessionContexts s)) s))"
  by (simp add: cleanupExpiredSessions_def Let_def logger_def)

lemma cleanupExpiredSessions_inv:
  assumes "registry_inv s"
  shows "registry_inv (cleanupExpiredSessions now closes s)"
proof -
  let ?s1 = "fold cleanOrphanedContext (js_keys (sessionContexts s)) s"
  have "registry_inv ?s1"
    using assms by (simp add: registry_inv_def fold_cleanOrphanedContext_transports)
  then have "registry_inv (fold (\<lambda>sid st. snd (removeSession (closes sid) st sid ''expired''))
                 (filter (isExpired now s) (js_keys (sessionMetadata s))) ?s1)"
    by (rule fold_removeSession_inv)
  then show ?thesis
    by (simp add: registry_inv_def cleanupExpiredSessions_transports)
qed

lemma performContextSwitch_transports:
  "performContextSwitch s sid c = Some s' \<Longrightarrow> transports s' = transports s"
  by (auto simp: performContextSwitch_def Let_def logger_def js_set_def
      split: if_splits option.splits js_lookup.splits)

lemma switch_step_transports:
  "switch_step sid t s = Some (t', s') \<Longrightarrow> transports s' = transports s"
  by (cases t)
     (auto simp: switch_step_def split: if_splits option.splits dest: performContextSwitch_transports)

lemma switchSessionContext_transports:
  "switchSessionContext s sid c = Some s' \<Longrightarrow> transports s' = transports s"
proof -
  assume "switchSessionContext s sid c = Some s'"
  then obtain t s1 t' where "switch_step sid (Called c) s = Some (t, s1)"
    and "switch_step sid t s1 = Some (t', s')"
    by (auto simp: switchSessionContext_def split: option.splits)
  then show ?thesis using switch_step_transports by metis
qed

lemma updateSessionAccess_transports:
  "updateSessionAccess now s sid = Some s' \<Longrightarrow> transports s' = transports s"
  by (auto simp: updateSessionAccess_def split: js_lookup.splits if_splits)

lemma continueSession_transports:
  "continueSession cfg env sid ctx s = Some (r, s') \<Longrightarrow> transports s' = transports s"
proof -
  assume h: "continueSession cfg env sid ctx s = Some (r, s')"
  show ?thesis
  proof (cases "isValidSessionId sid")
    case False
    with h show ?thesis by (simp add: continueSession_def)
  next
    case True
    with h obtain s1 where s1: "s1 = s \<or> (\<exists>c. switchSessionContext s sid c = Some s1)"
      and u: "updateSessionAccess (clock env) s1 sid = Some s'"
      by (auto simp: continueSession_def split: if_splits option.splits js_lookup.splits)
    from s1 have "transports s1 = transports s"
      using switchSessionContext_transports by blast
    with u show ?thesis using updateSessionAccess_transports by metis
  qed
qed

lemma createSession_transports:
  "createSession cfg env req ctx s = Some (r, s') \<Longrightarrow>
   transports s' = transports s \<or>
   (\<exists>sid. transports s' = AList.update sid \<lparr>sessionId = sid\<rparr> (transports s))"
  by (auto simp: createSession_def Let_def onsessioninitialized_def js_set_def logger_def
      split: if_splits option.splits)

lemma createSession_inv:
  assumes "registry_inv s" and "createSession cfg env req ctx s = Some (r, s')"
  shows "registry_inv s'"
  using createSession_transports[OF assms(2)] assms(1)
  by (auto simp: registry_inv_def ids_inv_update)

lemma handleRequest_transports:
  assumes "handleRequest cfg env req ctx s = Some (r, s')"
  shows "transports s' = transports s \<or>
         (isInitialize req \<and> canCreateSession s \<and>
          createSession cfg env req ctx s = Some (r, s'))"
proof (cases "isInitialize req")
  case True
  with assms show ?thesis
    by (cases "canCreateSession s") (auto simp: handleRequest_def logger_def)
next
  case False
  with assms show ?thesis
    by (auto simp: handleRequest_def rejectRequest_def Let_def logger_def
        split: if_splits dest: continueSession_transports)
qed

lemma handleRequest_inv:
  assumes "registry_inv s" and "handleRequest cfg env req ctx s = Some (r, s')"
  shows "registry_inv s'"
  using handleRequest_transports[OF assms(2)] assms(1) createSession_inv
  by (auto simp: registry_inv_def)

lemma beginRequest_inv:
  assumes "registry_inv s" and "beginRequest cfg env req ctx s = Some s'"
  shows "registry_inv s'"
proof (cases "isInitialize req \<and> canCreateSession s")
  case True
  with assms show ?thesis by (auto simp: beginRequest_def registry_inv_def)
next
  case False
  with assms(2) obtain r where "handleRequest cfg env req ctx s = Some (r, s')"
    by (auto simp: beginRequest_def)
  with assms(1) show ?thesis by (rule handleRequest_inv)
qed

lemma resumeRequest_inv:
  assumes "registry_inv s" and "resumeRequest cfg n s = Some s'"
  shows "registry_inv s'"
proof (cases "n < length (awaitingConnect s)")
  case False
  with assms show ?thesis by (simp add: resumeRequest_def)
next
  case True
  obtain env req ctx where e: "awaitingConnect s ! n = (env, req, ctx)"
    by (cases "awaitingConnect s ! n")
  let ?s = "s\<lparr>awaitingConnect := take n (awaitingConnect s) @ drop (Suc n) (awaitingConnect s)\<rparr>"
  from assms(2) True e obtain r where c: "createSession cfg env req ctx ?s = Some (r, s')"
    by (auto simp: resumeRequest_def)
  have "registry_inv ?s" using assms(1) by (simp add: registry_inv_def)
  then show ?thesis using c by (rule createSession_inv)
qed

lemma step_inv: "registry_inv s \<Longrightarrow> step cfg s e = Some s' \<Longrightarrow> registry_inv s'"
  by (cases e)
     (auto simp: step_def removeSession_inv cleanupExpiredSessions_inv
        dest: handleRequest_inv beginRequest_inv resumeRequest_inv)

lemma run_inv: "registry_inv s \<Longrightarrow> run cfg s es = Some s' \<Longrightarrow> registry_inv s'"
  by (induction es arbitrary: s) (auto split: option.splits dest: step_inv)

lemma initial_inv: "registry_inv initial_state"
  by (simp add: registry_inv_def ids_inv_def initial_state_def)

lemma registry_inv_ids:
  assumes "registry_inv s"
  shows "map (\<lambda>p. sessionId (snd p)) (transports s) = js_keys (transports s)"
  using assms by (simp add: registry_inv_def ids_inv_def js_keys_def)

text \<open>
  A request split into its two pieces with nothing in between is the request handled
  without interruption.
\<close>

lemma begin_resume_is_request:
  assumes "isInitialize req" and "canCreateSession s"
  shows "run cfg s [Begin env req ctx, Resume (length (awaitingConnect s))] =
         run cfg s [Request env req ctx]"
  using assms
  by (simp add: step_def beginRequest_def resumeRequest_def handleRequest_def nth_append
      split: option.splits)

subsection \<open>The capacity bound\<close>

text \<open>
  An initialize request that arrives when the count has reached \<open>MAX_SESSIONS\<close> is answered
  with the status 429 and leaves the four registry tables as they are.
\<close>

lemma full_registry_rejects_initialize:
  assumes "isInitialize req" and "MAX_SESSIONS \<le> getActiveSessionCount s"
  shows "\<exists>st. handleRequest cfg env req ctx s =
              Some (JsonRpcError 429 (- 32000)
                      ''Session limit reached (100). Please wait for existing sessions to expire.'',
                    st) \<and>
            registry st = registry s"
  using assms by (simp add: handleRequest_def canCreateSession_def logger_def registry_def)

lemma removeSession_count:
  "getActiveSessionCount (snd (removeSession c s sid reason)) \<le> getActiveSessionCount s"
  using removeSession_transports[of c s sid reason] length_delete_le[of sid "transports s"]
  by (auto simp: getActiveSessionCount_def js_keys_def js_delete_def)

lemma fold_removeSession_count:
  "getActiveSessionCount (fold (\<lambda>sid st. snd (removeSession (closes sid) st sid reason)) sids s)
     \<le> getActiveSessionCount s"
proof (induction sids arbitrary: s)
  case Nil
  show ?case by simp
next
  case (Cons k ks)
  from Cons.IH[of "snd (removeSession (closes k) s k reason)"]
    removeSession_count[of "closes k" s k reason]
  show ?case by simp
qed

lemma cleanupExpiredSessions_count:
  "getActiveSessionCount (cleanupExpiredSessions now closes s) \<le> getActiveSessionCount s"
proof -
  let ?s1 = "fold cleanOrphanedContext (js_keys (sessionContexts s)) s"
  have "getActiveSessionCount ?s1 = getActiveSessionCount s"
    by (simp add: getActiveSessionCount_def fold_cleanOrphanedContext_transports)
  with fold_removeSession_count[of closes "''expired''"
      "filter (isExpired now s) (js_keys (sessionMetadata s))" ?s1]
  show ?thesis
    by (simp add: getActiveSessionCount_def cleanupExpiredSessions_transports)
qed

lemma createSession_count:
  assumes "createSession cfg env req ctx s = Some (r, s')"
  shows "getActiveSessionCount s' \<le> Suc (getActiveSessionCount s)"
  using createSession_transports[OF assms] length_update_le[of _ _ "transports s"]
  by (auto simp: getActiveSessionCount_def js_keys_def)

lemma handleRequest_count:
  assumes "getActiveSessionCount s \<le> MAX_SESSIONS"
    and "handleRequest cfg env req ctx s = Some (r, s')"
  shows "getActiveSessionCount s' \<le> MAX_SESSIONS"
  using handleRequest_transports[OF assms(2)]
proof
  assume "transports s' = transports s"
  with assms(1) show ?thesis by (simp add: getActiveSessionCount_def)
next
  assume h: "isInitialize req \<and> canCreateSession s \<and>
             createSession cfg env req ctx s = Some (r, s')"
  then have "getActiveSessionCount s < MAX_SESSIONS" by (simp add: canCreateSession_def)
  moreover from h have "getActiveSessionCount s' \<le> Suc (getActiveSessionCount s)"
    using createSession_count by blast
  ultimately show ?thesis by simp
qed

lemma step_count:
  assumes "uninterrupted e" and "getActiveSessionCount s \<le> MAX_SESSIONS"
    and "step cfg s e = Some s'"
  shows "getActiveSessionCount s' \<le> MAX_SESSIONS"
proof (cases e)
  case (Request env req ctx)
  with assms(3) obtain r where "handleRequest cfg env req ctx s = Some (r, s')"
    by (auto simp: step_def)
  with assms(2) show ?thesis by (rule handleRequest_count)
next
  case (Begin env req ctx)
  with assms(1) show ?thesis by simp
next
  case (Resume n)
  with assms(1) show ?thesis by simp
next
  case (Remove c sid reason)
  with assms(2,3) removeSession_count[of c s sid reason] show ?thesis
    by (auto simp: step_def)
next
  case (Sweep now closes)
  with assms(2,3) cleanupExpiredSessions_count[of now closes s] show ?thesis
    by (auto simp: step_def)
qed

text \<open>
  As long as no two requests overlap, the count of sessions stays within the bound.
\<close>

lemma capacity_kept_without_overlap:
  assumes "list_all uninterrupted es" and "getActiveSessionCount s \<le> MAX_SESSIONS"
    and "run cfg s es = Some s'"
  shows "getActiveSessionCount s' \<le> MAX_SESSIONS"
  using assms
proof (induction es arbitrary: s)
  case Nil
  then show ?case by simp
next
  case (Cons e es)
  from Cons.prems(3) obtain s1 where s1: "step cfg s e = Some s1" and r: "run cfg s1 es = Some s'"
    by (auto split: option.splits)
  from Cons.prems(1) have "uninterrupted e" and "list_all uninterrupted es" by simp_all
  from step_count[OF this(1) Cons.prems(2) s1] Cons.IH[OF this(2) _ r] show ?case by simp
qed

lemma registry_of_size_count: "getActiveSessionCount ((registry_of_size k)\<lparr>awaitingConnect := p\<rparr>) = k"
  by (simp add: getActiveSessionCount_def js_keys_def registry_of_size_def)

text \<open>
  Claim C1, evaluated on the program. The registry holds 99 sessions, reached by 99
  initialize requests. Two further initialize requests overlap: the handler of each runs
  up to \<^verbatim>\<open>await server.connect\<close> before the other is resumed, so both pass the admission
  test \<^verbatim>\<open>canCreateSession()\<close> at the count 99. When they are resumed, each transport
  calls \<^verbatim>\<open>onsessioninitialized\<close>, which inserts without looking at the count again.
  No request was answered with 429, and the registry holds 101 sessions, one more than
  \<open>MAX_SESSIONS\<close>.
\<close>

theorem overlapping_initialize_exceeds_capacity:
  "run default_config initial_state (create_requests 99) = Some (registry_of_size 99) \<and>
   getActiveSessionCount (registry_of_size 99) = 99 \<and>
   run default_config (registry_of_size 99)
     [Begin (create_env (session_name 99) 0) initialize_request None,
      Begin (create_env (session_name 100) 0) initialize_request None,
      Resume 0, Resume 0] = Some (registry_of_size 101) \<and>
   getActiveSessionCount (registry_of_size 101) = 101 \<and>
   MAX_SESSIONS = 100"
proof -
  let ?r1 = "(create_env (session_name 99) 0, initialize_request, None :: instance_context option)"
  let ?r2 = "(create_env (session_name 100) 0, initialize_request, None :: instance_context option)"
  have i: "isInitialize initialize_request" by (simp add: initialize_request_def)
  have a: "awaitingConnect (registry_of_size 99) = []" by (simp add: registry_of_size_def)
  have can: "\<And>p. canCreateSession ((registry_of_size 99)\<lparr>awaitingConnect := p\<rparr>)"
    by (simp add: canCreateSession_def registry_of_size_count MAX_SESSIONS_def)
  have b1: "step default_config (registry_of_size 99)
              (Begin (create_env (session_name 99) 0) initialize_request None) =
            Some ((registry_of_size 99)\<lparr>awaitingConnect := [?r1]\<rparr>)"
    using i can[of "[]"] a by (simp add: step_def beginRequest_def registry_of_size_awaiting)
  have b2: "step default_config ((registry_of_size 99)\<lparr>awaitingConnect := [?r1]\<rparr>)
              (Begin (create_env (session_name 100) 0) initialize_request None) =
            Some ((registry_of_size 99)\<lparr>awaitingConnect := [?r1, ?r2]\<rparr>)"
    using i can[of "[?r1]"] by (simp add: step_def beginRequest_def)
  have c1: "step default_config ((registry_of_size 99)\<lparr>awaitingConnect := [?r1, ?r2]\<rparr>) (Resume 0) =
            Some ((registry_of_size 100)\<lparr>awaitingConnect := [?r2]\<rparr>)"
    using createSession_registry_of_size[where k = 99 and p = "[?r2]"]
    by (simp add: step_def resumeRequest_def)
  have c2: "step default_config ((registry_of_size 100)\<lparr>awaitingConnect := [?r2]\<rparr>) (Resume 0) =
            Some (registry_of_size 101)"
    using createSession_registry_of_size[where k = 100 and p = "[]"]
    by (simp add: step_def resumeRequest_def registry_of_size_awaiting)
  have r: "run default_config (registry_of_size 99)
     [Begin (create_env (session_name 99) 0) initialize_request None,
      Begin (create_env (session_name 100) 0) initialize_request None,
      Resume 0, Resume 0] = Some (registry_of_size 101)"
    using b1 b2 c1 c2 by simp
  have n: "getActiveSessionCount (registry_of_size 99) = 99"
    "getActiveSessionCount (registry_of_size 101) = 101"
    using registry_of_size_count[where k = 99 and p = "[]"]
      registry_of_size_count[where k = 101 and p = "[]"]
    by (simp_all add: registry_of_size_awaiting)
  from r n show ?thesis
    by (simp add: registry_of_size_reachable MAX_SESSIONS_def)
qed

text \<open>
  Claim C2. In every state reached from the initial state, in every deployment mode and
  for all request headers, instance contexts and generated UUIDs, the session ids of the
  transports held by the registry are pairwise distinct (a create whose id is already
  present replaces that entry). In per-instance multi-tenant mode, two creates with the
  same instance context and different UUIDs get different composite ids.
\<close>

theorem session_ids_pairwise_distinct:
  "(run cfg initial_state es = Some s \<longrightarrow>
      distinct (map (\<lambda>p. sessionId (snd p)) (transports s))) \<and>
   (enableMultiTenant cfg' \<and> sessionStrategy cfg' = ''instance'' \<and> truthy (instanceId c) \<and>
    uuidv4 env \<noteq> uuidv4 env' \<longrightarrow>
      sessionIdToUse cfg' env hdr (Some c) \<noteq> sessionIdToUse cfg' env' hdr' (Some c))"
proof -
  have "distinct (map (\<lambda>p. sessionId (snd p)) (transports s))"
    if "run cfg initial_state es = Some s"
  proof -
    have inv: "registry_inv s" by (rule run_inv[OF initial_inv that])
    then have "distinct (js_keys (transports s))"
      by (simp add: registry_inv_def ids_inv_def js_keys_def)
    with registry_inv_ids[OF inv] show ?thesis by simp
  qed
  moreover have "sessionIdToUse cfg' env hdr (Some c) \<noteq> sessionIdToUse cfg' env' hdr' (Some c)"
    if "enableMultiTenant cfg' \<and> sessionStrategy cfg' = ''instance'' \<and> truthy (instanceId c) \<and>
        uuidv4 env \<noteq> uuidv4 env'"
    using that by (simp add: sessionIdToUse_def)
  ultimately show ?thesis by blast
qed

lemma dup_session_reachable:
  "run default_config initial_state
     [Request (create_env ''u1'' 0) (initialize_as ''dup'') None,
      Request (create_env ''u2'' 1) (initialize_as ''dup'') None] = Some dup_session"
  by (simp add: step_def handleRequest_def canCreateSession_def getActiveSessionCount_def
      js_keys_def MAX_SESSIONS_def initial_state_def createSession_def create_env_def
      initialize_as_def sessionIdToUse_def truthy_def onsessioninitialized_def js_set_def
      logger_def dup_session_def default_config_def Let_def)

theorem session_ids_pairwise_distinct_witness:
  "run default_config initial_state
     [Request (create_env ''u1'' 0) (initialize_as ''dup'') None,
      Request (create_env ''u2'' 1) (initialize_as ''dup'') None] = Some dup_session \<and>
   distinct (map (\<lambda>p. sessionId (snd p)) (transports dup_session)) \<and>
   sessionIdToUse instance_config (create_env ''u1'' 0) None (Some tenant_A) \<noteq>
   sessionIdToUse instance_config (create_env ''u2'' 0) None (Some tenant_A)"
proof -
  have c: "enableMultiTenant instance_config \<and> sessionStrategy instance_config = ''instance'' \<and>
           truthy (instanceId tenant_A) \<and>
           uuidv4 (create_env ''u1'' 0) \<noteq> uuidv4 (create_env ''u2'' 0)"
    by (simp add: instance_config_def sessionStrategy_def truthy_def tenant_A_def create_env_def
        instanceId_def stringProperty_def)
  from session_ids_pairwise_distinct[of default_config
      "[Request (create_env ''u1'' 0) (initialize_as ''dup'') None,
        Request (create_env ''u2'' 1) (initialize_as ''dup'') None]" dup_session
      instance_config tenant_A "create_env ''u1'' 0" "create_env ''u2'' 0" None None]
    dup_session_reachable c
  show ?thesis by blast
qed

text \<open>
  A continuation request whose session id has no entry and is not a property name of
  \<^verbatim>\<open>Object.prototype\<close> is answered with the status 400, and the registry stays as it is.
\<close>

lemma unknown_session_rejected:
  assumes "\<not> isInitialize req" and "mcpSessionId req = Some sid"
    and "js_get (transports s) sid = Absent"
  shows "\<exists>msg st. handleRequest cfg env req ctx s = Some (JsonRpcError 400 (- 32000) msg, st) \<and>
           registry st = registry s"
  using assms
  by (simp add: handleRequest_def rejectRequest_def Let_def logger_def registry_def)

text \<open>
  Claim C3, evaluated on the program. No session exists, and a continuation request
  carries the session id \<^verbatim>\<open>constructor\<close>. The test \<^verbatim>\<open>this.transports[sessionId]\<close> finds
  the inherited \<^verbatim>\<open>Object.prototype.constructor\<close>, so the request is treated as one for
  an existing session; calling \<^verbatim>\<open>handleRequest\<close> on that value raises, and the answer
  is the internal error (status 500), not a client error. In shared multi-tenant mode with
  an instance context the request also stores that context under the key
  \<^verbatim>\<open>constructor\<close> in \<^verbatim>\<open>sessionContexts\<close>.
\<close>

theorem prototype_key_continuation_not_rejected:
  "js_get (transports initial_state) ''constructor'' = Inherited \<and>
   ''constructor'' \<notin> set (js_keys (transports initial_state)) \<and>
   handleRequest default_config (create_env ''u'' 5) (continuation_request ''constructor'') None
     initial_state = Some (InternalError, initial_state) \<and>
   (\<exists>st. handleRequest shared_config (create_env ''u'' 5) (continuation_request ''constructor'')
            (Some tenant_A) initial_state = Some (InternalError, st) \<and>
          sessionContexts st = [(''constructor'', Some tenant_A)])"
  by (simp add: handleRequest_def continueSession_def continuation_request_def truthy_def
      isValidSessionId_def updateSessionAccess_def initial_state_def js_get_def js_keys_def
      object_prototype_keys_def shared_config_def default_config_def sessionStrategy_def
      switchSessionContext_def switch_step_def performContextSwitch_def JSON_stringify_def
      js_set_def Let_def logger_def create_env_def)

end
